theory Spec2Isabelle
  imports Main "HOL-Library.Word"
begin

unbundle bit_operations_syntax

section \<open>Save-file codec of \<open>src/utils/saveDecryptor.ts\<close>\<close>

subsection \<open>Data\<close>

text \<open>
  Bytes of a \<open>Uint8Array\<close> are 8-bit words, the signed 32-bit words of a CryptoJS
  \<open>WordArray\<close> are 32-bit words, and a JavaScript string is its sequence of UTF-16 code
  units (what \<open>str.length\<close> counts and \<open>str.charCodeAt(i)\<close> reads).
\<close>

type_synonym u8 = "8 word"
type_synonym u16 = "16 word"
type_synonym u32 = "32 word"
type_synonym jsstring = "u16 list"

text \<open>A thrown \<open>Error\<close> with its message; \<open>RangeError\<close> is the one the typed-array
  built-ins throw.\<close>

datatype error = Error string | RangeError

text \<open>A string literal of the source whose characters are all ASCII.\<close>

definition js :: "string \<Rightarrow> jsstring" where
  "js s = map (\<lambda>c. of_nat (of_char c)) s"

definition BASE_KEY :: "u8 list" where
  "BASE_KEY =
    [0x35, 0xec, 0x33, 0x77, 0xf3, 0x5d, 0xb0, 0xea, 0xbe, 0x6b, 0x83, 0x11, 0x54, 0x03, 0xeb, 0xfb,
     0x27, 0x25, 0x64, 0x2e, 0xd5, 0x49, 0x06, 0x29, 0x05, 0x78, 0xbd, 0x60, 0xba, 0x4a, 0xa7, 0x87]"

subsection \<open>Key derivation\<close>

text \<open>\<open>utf16leBytes\<close>: for every code unit, \<open>code & 0xff\<close> and then \<open>(code >> 8) & 0xff\<close>.\<close>

fun utf16leBytes :: "jsstring \<Rightarrow> u8 list" where
  "utf16leBytes [] = []"
| "utf16leBytes (code # str) =
     ucast (code AND 0xff) # ucast (drop_bit 8 code AND 0xff) # utf16leBytes str"

text \<open>
  The test \<open>/^\d{17,}$/.test(userID)\<close>. In JavaScript \<open>\d\<close> is \<open>[0-9]\<close>, and without the
  \<open>m\<close> flag \<open>$\<close> matches at the end of the input only. The matcher consumes seventeen digits,
  then greedily every further digit, and \<open>$\<close> asks that nothing is left; giving digits back
  cannot help \<open>$\<close>, so no backtracking is modelled.
\<close>

definition isDigit :: "u16 \<Rightarrow> bool" where
  "isDigit c = (0x30 \<le> c \<and> c \<le> 0x39)"

fun matchDigits :: "nat \<Rightarrow> jsstring \<Rightarrow> jsstring option" where
  "matchDigits 0 s = Some s"
| "matchDigits (Suc n) [] = None"
| "matchDigits (Suc n) (c # s) = (if isDigit c then matchDigits n s else None)"

fun matchDigitsGreedy :: "jsstring \<Rightarrow> jsstring" where
  "matchDigitsGreedy [] = []"
| "matchDigitsGreedy (c # s) = (if isDigit c then matchDigitsGreedy s else c # s)"

definition steamPattern :: "jsstring \<Rightarrow> bool" where
  "steamPattern userID =
     (case matchDigits 17 userID of
        None \<Rightarrow> False
      | Some rest \<Rightarrow> matchDigitsGreedy rest = [])"

text \<open>\<open>BigInt(userID)\<close> on a string of decimal digits: an unbounded natural number.\<close>

fun parseDigits :: "nat \<Rightarrow> jsstring \<Rightarrow> nat" where
  "parseDigits acc [] = acc"
| "parseDigits acc (c # s) = parseDigits (acc * 10 + (unat c - 0x30)) s"

definition BigInt :: "jsstring \<Rightarrow> nat" where
  "BigInt s = parseDigits 0 s"

text \<open>The loop \<open>for (i = 0; i < 8; i++) { push(Number(sid & 0xffn)); sid >>= 8n }\<close>,
  with the number of rounds as first argument.\<close>

fun steamBytes :: "nat \<Rightarrow> nat \<Rightarrow> u8 list" where
  "steamBytes 0 sid = []"
| "steamBytes (Suc n) sid = of_nat (sid AND 0xff) # steamBytes n (drop_bit 8 sid)"

text \<open>The value of the local \<open>uid_bytes\<close> after the branch on the pattern.\<close>

definition uid_bytes :: "jsstring \<Rightarrow> u8 list" where
  "uid_bytes userID =
     (if steamPattern userID then steamBytes 8 (BigInt userID) else utf16leBytes userID)"

text \<open>The loop \<open>for (i = 0; i < Math.min(k.length, uid_bytes.length); i++) k[i] ^= uid_bytes[i]\<close>
  over a copy \<open>k\<close> of the base key.\<close>

fun xorInto :: "u8 list \<Rightarrow> u8 list \<Rightarrow> u8 list" where
  "xorInto [] us = []"
| "xorInto (k # ks) [] = k # ks"
| "xorInto (k # ks) (u # us) = (k XOR u) # xorInto ks us"

definition deriveKey :: "jsstring \<Rightarrow> u8 list" where
  "deriveKey userID = xorInto BASE_KEY (uid_bytes userID)"

subsection \<open>PKCS7 padding\<close>

text \<open>Reading a typed array at an index: \<open>undefined\<close> (here \<open>None\<close>) outside the array,
  also at a negative index.\<close>

definition byteAt :: "u8 list \<Rightarrow> int \<Rightarrow> u8 option" where
  "byteAt buf i = (if 0 \<le> i \<and> i < int (length buf) then Some (buf ! nat i) else None)"

text \<open>The loop \<open>for (i = 1; i <= pad; i++) if (buf[buf.length - i] !== pad) return ...\<close>:
  \<open>False\<close> when it leaves through the early return, \<open>True\<close> when it runs to its end.\<close>

function unpadLoop :: "u8 list \<Rightarrow> u8 \<Rightarrow> nat \<Rightarrow> bool" where
  "unpadLoop buf pad i =
     (if i \<le> unat pad
      then (if byteAt buf (int (length buf) - int i) \<noteq> Some pad then False
            else unpadLoop buf pad (i + 1))
      else True)"
  by pat_completeness auto
termination
  by (relation "measure (\<lambda>(buf, pad, i). unat pad + 1 - i)") auto

declare unpadLoop.simps [simp del]

text \<open>
  \<open>pkcs7Unpad\<close> returns the lines it writes with \<open>console.warn\<close> and its result. On an empty
  buffer \<open>pad\<close> is \<open>undefined\<close>: the loop does not run (\<open>1 <= undefined\<close> is false) and
  \<open>new Uint8Array(NaN)\<close> is the empty array.
\<close>

definition pkcs7Unpad :: "u8 list \<Rightarrow> string list \<times> u8 list" where
  "pkcs7Unpad buf =
     (case byteAt buf (int (length buf) - 1) of
        None \<Rightarrow> ([], [])
      | Some pad \<Rightarrow>
          if unpadLoop buf pad 1
          then ([], take (length buf - unat pad) buf)
          else ([''PKCS7 unpad failed, returning padded data''], buf))"

text \<open>
  \<open>pkcs7Pad\<close>. \<open>out.fill(pad, buf.length)\<close> stores \<open>pad\<close> as a byte. With \<open>blockSize = 0\<close>
  the remainder is \<open>NaN\<close>, \<open>out\<close> is the empty array and \<open>out.set(buf)\<close> throws a
  \<open>RangeError\<close> unless \<open>buf\<close> is empty too.
\<close>

definition pkcs7Pad :: "u8 list \<Rightarrow> nat \<Rightarrow> error + u8 list" where
  "pkcs7Pad buf blockSize =
     (if blockSize = 0 then (if buf = [] then Inr [] else Inl RangeError)
      else (let pad = blockSize - (length buf mod blockSize)
            in Inr (buf @ replicate pad (of_nat pad))))"

subsection \<open>Adler-32\<close>

text \<open>The loop of \<open>adler32\<close> with its two accumulators, and the result
  \<open>((b << 16) | a) >>> 0\<close>: a 32-bit pattern read as unsigned.\<close>

fun adler32Loop :: "nat \<Rightarrow> nat \<Rightarrow> u8 list \<Rightarrow> nat \<times> nat" where
  "adler32Loop a b [] = (a, b)"
| "adler32Loop a b (x # buf) =
     (let a' = (a + unat x) mod 65521; b' = (b + a') mod 65521 in adler32Loop a' b' buf)"

definition adler32 :: "u8 list \<Rightarrow> u32" where
  "adler32 buf = (case adler32Loop 1 0 buf of (a, b) \<Rightarrow> push_bit 16 (of_nat b) OR of_nat a)"

subsection \<open>The platform's text codecs\<close>

text \<open>
  \<open>new TextEncoder().encode(s)\<close> and \<open>new TextDecoder().decode(bytes)\<close> are built-ins of the
  platform, not code of the repository. They are modelled after the Encoding Standard: the
  encoder reads the string as scalar values (a surrogate pair is one code point, a lone
  surrogate becomes U+FFFD) and writes UTF-8; the decoder is the standard's UTF-8 decoder in
  replacement mode (every malformed sequence yields U+FFFD), drops one leading byte order
  mark, and writes code points above U+FFFF as surrogate pairs.
\<close>

definition isHighSurrogate :: "u16 \<Rightarrow> bool" where
  "isHighSurrogate c = (0xD800 \<le> c \<and> c \<le> 0xDBFF)"

definition isLowSurrogate :: "u16 \<Rightarrow> bool" where
  "isLowSurrogate c = (0xDC00 \<le> c \<and> c \<le> 0xDFFF)"

definition scalarOf :: "u16 \<Rightarrow> nat" where
  "scalarOf c = (if isHighSurrogate c \<or> isLowSurrogate c then 0xFFFD else unat c)"

fun codePoints :: "jsstring \<Rightarrow> nat list" where
  "codePoints [] = []"
| "codePoints [c] = [scalarOf c]"
| "codePoints (c # d # s) =
     (if isHighSurrogate c \<and> isLowSurrogate d
      then (0x10000 + (unat c - 0xD800) * 0x400 + (unat d - 0xDC00)) # codePoints s
      else scalarOf c # codePoints (d # s))"

definition utf8Bytes :: "nat \<Rightarrow> nat list" where
  "utf8Bytes cp =
     (if cp < 0x80 then [cp]
      else if cp < 0x800 then [0xC0 + cp div 0x40, 0x80 + cp mod 0x40]
      else if cp < 0x10000
      then [0xE0 + cp div 0x1000, 0x80 + cp div 0x40 mod 0x40, 0x80 + cp mod 0x40]
      else [0xF0 + cp div 0x40000, 0x80 + cp div 0x1000 mod 0x40,
            0x80 + cp div 0x40 mod 0x40, 0x80 + cp mod 0x40])"

definition TextEncoder_encode :: "jsstring \<Rightarrow> u8 list" where
  "TextEncoder_encode s = map of_nat (concat (map utf8Bytes (codePoints s)))"

text \<open>The decoder's state: the code point so far, the bytes seen and needed, and the lower
  and upper boundary of the next continuation byte.\<close>

function utf8Decoder :: "nat \<Rightarrow> nat \<Rightarrow> nat \<Rightarrow> nat \<Rightarrow> nat \<Rightarrow> u8 list \<Rightarrow> nat list" where
  "utf8Decoder cp seen needed lo hi [] = (if needed \<noteq> 0 then [0xFFFD] else [])"
| "utf8Decoder cp seen needed lo hi (byte # bs) =
     (if needed = 0 then
        (if unat byte \<le> 0x7F then unat byte # utf8Decoder 0 0 0 0x80 0xBF bs
         else if 0xC2 \<le> unat byte \<and> unat byte \<le> 0xDF
         then utf8Decoder (unat byte - 0xC0) 0 1 0x80 0xBF bs
         else if 0xE0 \<le> unat byte \<and> unat byte \<le> 0xEF
         then utf8Decoder (unat byte - 0xE0) 0 2
                (if unat byte = 0xE0 then 0xA0 else 0x80)
                (if unat byte = 0xED then 0x9F else 0xBF) bs
         else if 0xF0 \<le> unat byte \<and> unat byte \<le> 0xF4
         then utf8Decoder (unat byte - 0xF0) 0 3
                (if unat byte = 0xF0 then 0x90 else 0x80)
                (if unat byte = 0xF4 then 0x8F else 0xBF) bs
         else 0xFFFD # utf8Decoder 0 0 0 0x80 0xBF bs)
      else if unat byte < lo \<or> hi < unat byte
      then 0xFFFD # utf8Decoder 0 0 0 0x80 0xBF (byte # bs)
      else if seen + 1 = needed
      then (cp * 0x40 + (unat byte - 0x80)) # utf8Decoder 0 0 0 0x80 0xBF bs
      else utf8Decoder (cp * 0x40 + (unat byte - 0x80)) (seen + 1) needed 0x80 0xBF bs)"
  by pat_completeness auto
termination
  by (relation "measure (\<lambda>(cp, seen, needed, lo, hi, bs). 2 * length bs + (if needed = 0 then 0 else 1))")
    auto

definition utf16Units :: "nat \<Rightarrow> jsstring" where
  "utf16Units cp =
     (if cp < 0x10000 then [of_nat cp]
      else [of_nat (0xD800 + (cp - 0x10000) div 0x400), of_nat (0xDC00 + (cp - 0x10000) mod 0x400)])"

definition TextDecoder_decode :: "u8 list \<Rightarrow> jsstring" where
  "TextDecoder_decode bytes =
     (let cps = utf8Decoder 0 0 0 0x80 0xBF bytes;
          cps' = (if cps \<noteq> [] \<and> hd cps = 0xFEFF then tl cps else cps)
      in concat (map utf16Units cps'))"

subsection \<open>The external libraries\<close>

text \<open>
  A CryptoJS \<open>WordArray\<close>: big-endian 32-bit words and the number of significant bytes.
  \<open>CryptoJS.AES\<close> is used in ECB mode without padding only; \<open>AES_encrypt\<close> is the
  \<open>ciphertext\<close> field of what \<open>CryptoJS.AES.encrypt(message, key, cfg)\<close> returns and
  \<open>AES_decrypt\<close> is \<open>CryptoJS.AES.decrypt({ ciphertext }, key, cfg)\<close>. \<open>pako.deflate\<close> takes
  the compression level. A call of \<open>pako.inflate\<close> ends in one of three ways: it throws,
  it returns \<open>undefined\<close> (pako 2 does on a stream that ends early), or it returns a
  \<open>Uint8Array\<close>. Both libraries are globals of \<open>window\<close> that may be missing.
\<close>

datatype inflate_result = Throws | ReturnsUndefined | ReturnsBytes "u8 list"

record WordArray =
  words :: "u32 list"
  sigBytes :: nat

record CryptoJS_lib =
  AES_encrypt :: "WordArray \<Rightarrow> WordArray \<Rightarrow> WordArray"
  AES_decrypt :: "WordArray \<Rightarrow> WordArray \<Rightarrow> WordArray"

record pako_lib =
  deflate :: "u8 list \<Rightarrow> nat \<Rightarrow> u8 list"
  inflate :: "u8 list \<Rightarrow> inflate_result"

record window =
  CryptoJS :: "CryptoJS_lib option"
  pako :: "pako_lib option"

text \<open>\<open>uint8ArrayToWordArray\<close>: four bytes per word, the first one highest; a byte read
  past the end is \<open>undefined\<close> and shifts to 0.\<close>

definition be32 :: "u8 \<Rightarrow> u8 \<Rightarrow> u8 \<Rightarrow> u8 \<Rightarrow> u32" where
  "be32 a b c d = push_bit 24 (ucast a) OR push_bit 16 (ucast b) OR push_bit 8 (ucast c) OR ucast d"

fun packWords :: "u8 list \<Rightarrow> u32 list" where
  "packWords (a # b # c # d # rest) = be32 a b c d # packWords rest"
| "packWords [a, b, c] = [be32 a b c 0]"
| "packWords [a, b] = [be32 a b 0 0]"
| "packWords [a] = [be32 a 0 0 0]"
| "packWords [] = []"

definition uint8ArrayToWordArray :: "u8 list \<Rightarrow> WordArray" where
  "uint8ArrayToWordArray u8arr = \<lparr>words = packWords u8arr, sigBytes = length u8arr\<rparr>"

text \<open>The loops that write a word array back into a \<open>Uint8Array\<close> of four bytes per word:
  \<open>(w >> 24) & 0xff\<close>, \<open>(w >> 16) & 0xff\<close>, \<open>(w >> 8) & 0xff\<close>, \<open>w & 0xff\<close>, where \<open>>>\<close>
  is the signed shift.\<close>

definition wordBytes :: "u32 \<Rightarrow> u8 list" where
  "wordBytes w =
     [ucast (signed_drop_bit 24 w AND 0xff), ucast (signed_drop_bit 16 w AND 0xff),
      ucast (signed_drop_bit 8 w AND 0xff), ucast (w AND 0xff)]"

definition wordsToBytes :: "u32 list \<Rightarrow> u8 list" where
  "wordsToBytes ws = concat (map wordBytes ws)"

subsection \<open>Decoding: \<open>decryptSave\<close>\<close>

text \<open>
  The steps of \<open>decryptSave\<close> from the key to \<open>pt = trimmed\<close>: decrypt, write the words
  back as bytes, and copy the first \<open>ciph.length\<close> of them into a zero-filled array of that
  length.
\<close>

definition decryptBuffer :: "CryptoJS_lib \<Rightarrow> u8 list \<Rightarrow> jsstring \<Rightarrow> u8 list" where
  "decryptBuffer C ciph userID =
     (let keyBytes = deriveKey userID;
          keyWordArray = uint8ArrayToWordArray keyBytes;
          ciphWordArray = uint8ArrayToWordArray ciph;
          decrypted = AES_decrypt C ciphWordArray keyWordArray;
          pt = wordsToBytes (words decrypted)
      in take (length ciph) pt @ replicate (length ciph - length pt) 0)"

definition trimOptions :: "nat list" where
  "trimOptions = [4, 8]"

text \<open>
  The loop over the trims. It returns the arguments \<open>pako.inflate\<close> was called with, in
  order, and the values of \<open>inflated\<close> and \<open>trimUsed\<close> when the loop ends; \<open>None\<close> stands
  for \<open>null\<close> and for \<open>undefined\<close>, which are both falsy. A negative \<open>candidateLen\<close> makes
  \<open>new Uint8Array\<close> throw inside the \<open>try\<close>, and so does a stream that \<open>pako.inflate\<close>
  rejects: the \<open>catch\<close> goes on with the next trim. Of an empty candidate \<open>candidate[0]\<close> is
  \<open>undefined\<close>, which is not \<open>0x78\<close>. When \<open>pako.inflate\<close> returns, whatever it returns,
  the two assignments and the \<open>break\<close> follow: the loop is over.
\<close>

fun tryTrims ::
  "pako_lib \<Rightarrow> u8 list \<Rightarrow> nat list \<Rightarrow> u8 list list \<times> (u8 list option \<times> nat option)" where
  "tryTrims P pt [] = ([], (None, None))"
| "tryTrims P pt (trim # rest) =
     (if length pt < trim then tryTrims P pt rest
      else
        (let candidate = take (length pt - trim) pt in
         if byteAt candidate 0 \<noteq> Some 0x78 then tryTrims P pt rest
         else
           (case inflate P candidate of
              Throws \<Rightarrow> (case tryTrims P pt rest of (calls, r) \<Rightarrow> (candidate # calls, r))
            | ReturnsUndefined \<Rightarrow> ([candidate], (None, Some trim))
            | ReturnsBytes bytes \<Rightarrow> ([candidate], (Some bytes, Some trim)))))"

text \<open>A number in a template literal: its decimal digits; \<open>null\<close> prints as "null".\<close>

function showNat :: "nat \<Rightarrow> string" where
  "showNat n =
     (if n < 10 then [char_of (48 + n)] else showNat (n div 10) @ [char_of (48 + n mod 10)])"
  by pat_completeness auto
termination
  by (relation "measure id") auto

declare showNat.simps [simp del]

definition showTrim :: "nat option \<Rightarrow> string" where
  "showTrim trimUsed = (case trimUsed of None \<Rightarrow> ''null'' | Some trim \<Rightarrow> showNat trim)"

text \<open>What a call of \<open>decryptSave\<close> does: the lines written to the console, the calls of
  \<open>pako.inflate\<close>, and the string it resolves to or the error it throws.\<close>

record decrypt_run =
  console :: "string list"
  inflateCalls :: "u8 list list"
  outcome :: "error + jsstring"

definition decryptSave :: "window \<Rightarrow> u8 list \<Rightarrow> jsstring \<Rightarrow> decrypt_run" where
  "decryptSave win fileArrayBuffer userID =
     (if userID = []
      then \<lparr>console = [], inflateCalls = [],
            outcome = Inl (Error ''Please enter platform user ID (Steam or Epic)'')\<rparr>
      else
        (case (CryptoJS win, pako win) of
           (Some C, Some P) \<Rightarrow>
             (case pkcs7Unpad (decryptBuffer C fileArrayBuffer userID) of
                (warnings, pt) \<Rightarrow>
                  (case tryTrims P pt trimOptions of
                     (calls, (None, trimUsed)) \<Rightarrow>
                       \<lparr>console = warnings, inflateCalls = calls,
                        outcome = Inl (Error ''Zlib decompress failed. Wrong user ID or file format?'')\<rparr>
                   | (calls, (Some inflated, trimUsed)) \<Rightarrow>
                       \<lparr>console =
                          warnings @ [''Successfully decompressed with trim='' @ showTrim trimUsed],
                        inflateCalls = calls,
                        outcome = Inr (TextDecoder_decode inflated)\<rparr>))
         | _ \<Rightarrow>
             \<lparr>console = [], inflateCalls = [],
              outcome = Inl (Error ''Required libraries not loaded'')\<rparr>))"

subsection \<open>Encoding: \<open>encryptSave\<close>\<close>

text \<open>The four byte writes of a 32-bit number: \<open>x & 0xff\<close>, \<open>(x >> 8) & 0xff\<close>,
  \<open>(x >> 16) & 0xff\<close>, \<open>(x >> 24) & 0xff\<close>.\<close>

definition writeLE32 :: "u32 \<Rightarrow> u8 list" where
  "writeLE32 x =
     [ucast (x AND 0xff), ucast (signed_drop_bit 8 x AND 0xff),
      ucast (signed_drop_bit 16 x AND 0xff), ucast (signed_drop_bit 24 x AND 0xff)]"

text \<open>The array \<open>packed\<close>: the compressed bytes, then the checksum and the length of the
  uncompressed bytes.\<close>

definition packedContainer :: "pako_lib \<Rightarrow> u8 list \<Rightarrow> u8 list" where
  "packedContainer P yamlBytes =
     (let comp = deflate P yamlBytes 9;
          adler = adler32 yamlBytes;
          uncompressedLen = length yamlBytes
      in comp @ writeLE32 adler @ writeLE32 (of_nat uncompressedLen))"

text \<open>The array \<open>pt_padded\<close>, which is what \<open>encryptSave\<close> hands to the cipher.\<close>

definition cipherInput :: "pako_lib \<Rightarrow> jsstring \<Rightarrow> error + u8 list" where
  "cipherInput P yamlContent = pkcs7Pad (packedContainer P (TextEncoder_encode yamlContent)) 16"

record Blob =
  blobBytes :: "u8 list"
  blobType :: string

definition encryptSave :: "window \<Rightarrow> jsstring \<Rightarrow> jsstring \<Rightarrow> error + Blob" where
  "encryptSave win yamlContent userID =
     (if userID = [] then Inl (Error ''Please enter platform user ID (Steam or Epic)'')
      else
        (case (CryptoJS win, pako win) of
           (Some C, Some P) \<Rightarrow>
             (case cipherInput P yamlContent of
                Inl e \<Rightarrow> Inl e
              | Inr pt_padded \<Rightarrow>
                  (let keyBytes = deriveKey userID;
                       keyWordArray = uint8ArrayToWordArray keyBytes;
                       ptWordArray = uint8ArrayToWordArray pt_padded;
                       ciphertext = AES_encrypt C ptWordArray keyWordArray;
                       encBytes = wordsToBytes (words ciphertext)
                   in Inr \<lparr>blobBytes = encBytes, blobType = ''application/octet-stream''\<rparr>))
         | _ \<Rightarrow> Inl (Error ''Required libraries not loaded'')))"

section \<open>Specification-level notions\<close>

text \<open>The notions the properties below are stated with. None of them is used by the model
  of the code above.\<close>

subsection \<open>Identities and their bytes\<close>

definition asciiDigits :: "u16 set" where
  "asciiDigits = set (js ''0123456789'')"

text \<open>The number a string of decimal digits denotes.\<close>

definition decimalValue :: "jsstring \<Rightarrow> nat" where
  "decimalValue s = (\<Sum>i<length s. (unat (s ! i) - 48) * 10 ^ (length s - 1 - i))"

text \<open>The \<open>n\<close> low bytes of a number, lowest first.\<close>

definition littleEndian :: "nat \<Rightarrow> nat \<Rightarrow> u8 list" where
  "littleEndian n v = map (\<lambda>i. of_nat (v div 256 ^ i mod 256)) [0..<n]"

text \<open>Two bytes per code unit, the low byte first.\<close>

definition utf16le :: "jsstring \<Rightarrow> u8 list" where
  "utf16le s = concat (map (\<lambda>c. [of_nat (unat c mod 256), of_nat (unat c div 256)]) s)"

text \<open>A byte string cut to 32 bytes, and the same filled up with zero bytes to 32.\<close>

definition truncate32 :: "u8 list \<Rightarrow> u8 list" where
  "truncate32 bs = take 32 bs"

definition zeroExtend32 :: "u8 list \<Rightarrow> u8 list" where
  "zeroExtend32 bs = bs @ replicate (32 - length bs) 0"

subsection \<open>Adler-32 as the reference states it\<close>

definition adlerStep :: "nat \<times> nat \<Rightarrow> u8 \<Rightarrow> nat \<times> nat" where
  "adlerStep s x = (let a = (fst s + unat x) mod 65521; b = (snd s + a) mod 65521 in (a, b))"

definition adler32_reference :: "u8 list \<Rightarrow> nat" where
  "adler32_reference buf =
     (case foldl adlerStep (1, 0) buf of (a, b) \<Rightarrow> (push_bit 16 b OR a) mod 2 ^ 32)"

subsection \<open>Trim candidates\<close>

text \<open>The candidate of a trim, when the buffer is long enough to have one.\<close>

definition trimCandidate :: "u8 list \<Rightarrow> nat \<Rightarrow> u8 list option" where
  "trimCandidate pt trim = (if trim \<le> length pt then Some (take (length pt - trim) pt) else None)"

text \<open>The candidate of a trim that passes the check of the first byte: it exists, is not
  empty and starts with \<open>0x78\<close>.\<close>

definition gatedCandidate :: "u8 list \<Rightarrow> nat \<Rightarrow> u8 list option" where
  "gatedCandidate pt trim =
     (case trimCandidate pt trim of
        None \<Rightarrow> None
      | Some candidate \<Rightarrow> if candidate \<noteq> [] \<and> hd candidate = 0x78 then Some candidate else None)"

text \<open>A trim whose candidate starts with \<open>0x78\<close> and inflates successfully, with the
  inflated bytes: \<open>pako.inflate\<close> returns them when it is called on the candidate.\<close>

definition acceptedInflation :: "pako_lib \<Rightarrow> u8 list \<Rightarrow> nat \<Rightarrow> u8 list option" where
  "acceptedInflation P pt trim =
     (case gatedCandidate pt trim of
        None \<Rightarrow> None
      | Some candidate \<Rightarrow>
          (case inflate P candidate of ReturnsBytes bytes \<Rightarrow> Some bytes | _ \<Rightarrow> None))"

subsection \<open>Contracts of the external libraries\<close>







subsection \<open>Stand-ins for the external libraries\<close>

text \<open>
  Small libraries to run the codec on. \<open>nullCipher\<close> leaves every word as it is.
  \<open>framedZlib\<close> writes the header \<open>78 DA\<close>, marks every data byte with a \<open>01\<close> in front
  and the end of the stream with a \<open>00\<close>; it reads up to that end and leaves the rest aside,
  and throws on everything else.
\<close>

definition nullCipher :: CryptoJS_lib where
  "nullCipher = \<lparr>AES_encrypt = (\<lambda>m k. m), AES_decrypt = (\<lambda>c k. c)\<rparr>"

fun frame :: "u8 list \<Rightarrow> u8 list" where
  "frame [] = [0]"
| "frame (b # bs) = 1 # b # frame bs"

fun unframe :: "u8 list \<Rightarrow> u8 list option" where
  "unframe [] = None"
| "unframe [t] = (if t = 0 then Some [] else None)"
| "unframe (t # b # rest) = (if t = 0 then Some [] else map_option ((#) b) (unframe rest))"

definition framedInflate :: "u8 list \<Rightarrow> inflate_result" where
  "framedInflate c =
     (case c of
        a # b # rest \<Rightarrow>
          if a = 0x78 \<and> b = 0xDA
          then (case unframe rest of None \<Rightarrow> Throws | Some x \<Rightarrow> ReturnsBytes x)
          else Throws
      | _ \<Rightarrow> Throws)"

definition framedZlib :: pako_lib where
  "framedZlib = \<lparr>deflate = (\<lambda>x level. 0x78 # 0xDA # frame x), inflate = framedInflate\<rparr>"

text \<open>
  What zlib and pako 2.1.0 do on the text "lv: 1" followed by a newline. At level 9 its six
  bytes deflate to the fourteen bytes \<open>lv1Deflated\<close>. Their Adler-32 checksum is
  \<open>0x06900178\<close>, whose little-endian bytes \<open>78 01 90 06\<close> begin like a zlib stream. On the
  deflated bytes \<open>pako.inflate\<close> returns the text; on the deflated bytes followed by the
  four checksum bytes it starts on a second stream, runs out of input and returns
  \<open>undefined\<close>. \<open>recordedPako\<close> is this table and nothing more: on other inputs its deflate
  gives no bytes and its inflate throws.
\<close>

definition lv1Bytes :: "u8 list" where
  "lv1Bytes = [0x6C, 0x76, 0x3A, 0x20, 0x31, 0x0A]"

definition lv1Deflated :: "u8 list" where
  "lv1Deflated =
     [0x78, 0xDA, 0xCB, 0x29, 0xB3, 0x52, 0x30, 0xE4, 0x02, 0x00, 0x06, 0x90, 0x01, 0x78]"

definition recordedInflate :: "u8 list \<Rightarrow> inflate_result" where
  "recordedInflate c =
     (if c = lv1Deflated then ReturnsBytes lv1Bytes
      else if c = lv1Deflated @ [0x78, 0x01, 0x90, 0x06] then ReturnsUndefined
      else Throws)"

definition recordedPako :: pako_lib where
  "recordedPako =
     \<lparr>deflate = (\<lambda>x level. if x = lv1Bytes \<and> level = 9 then lv1Deflated else []),
      inflate = recordedInflate\<rparr>"

definition testWindow :: "pako_lib \<Rightarrow> window" where
  "testWindow P = \<lparr>CryptoJS = Some nullCipher, pako = Some P\<rparr>"

section \<open>Properties\<close>

subsection \<open>Evaluation lemmas\<close>

lemma js_simps: "js [] = []" "js (c # s) = of_nat (of_char c) # js s"
  by (simp_all add: js_def)

lemma adler32Loop_Cons:
  "adler32Loop a b (x # buf) =
     adler32Loop ((a + unat x) mod 65521) ((b + (a + unat x) mod 65521) mod 65521) buf"
  by (simp add: Let_def)

lemma codePoints_ascii:
  "list_all (\<lambda>c. c < 0x80) s \<Longrightarrow> codePoints s = map unat s"
  by (induction s rule: codePoints.induct)
     (auto simp: scalarOf_def isHighSurrogate_def isLowSurrogate_def word_less_nat_alt word_le_nat_alt)

lemma TextEncoder_ascii:
  assumes "list_all (\<lambda>c. c < 0x80) s"
  shows "TextEncoder_encode s = map ucast s"
proof -
  have "concat (map utf8Bytes (map unat s)) = map unat s"
    using assms by (induction s) (auto simp: utf8Bytes_def word_less_nat_alt)
  then show ?thesis
    by (simp add: TextEncoder_encode_def codePoints_ascii [OF assms] comp_def)
qed

lemma utf8_Wikipedia:
  "TextEncoder_encode (js ''Wikipedia'') = [87, 105, 107, 105, 112, 101, 100, 105, 97]"
  by (subst TextEncoder_ascii) (simp_all add: js_simps)

subsection \<open>Adler-32\<close>

lemma adler32Loop_foldl: "adler32Loop a b buf = foldl adlerStep (a, b) buf"
  by (induction buf arbitrary: a b) (simp_all add: adlerStep_def Let_def)

lemma unat_shift_or:
  "unat (push_bit 16 (of_nat b) OR of_nat a :: u32) = (push_bit 16 b OR a) mod 2 ^ 32"
proof -
  have "(push_bit 16 (of_nat b) OR of_nat a :: u32) = of_nat (push_bit 16 b OR a)"
    by (simp add: of_nat_or_eq of_nat_push_bit)
  then show ?thesis
    by (simp add: unsigned_of_nat take_bit_eq_mod)
qed

text \<open>
  C8: for every buffer, \<open>adler32\<close> is the reference Adler-32: \<open>a\<close> starts at 1 and \<open>b\<close> at 0,
  every byte \<open>x\<close> in order sets \<open>a = (a + x) mod 65521\<close> and \<open>b = (b + a) mod 65521\<close>, and the
  result is \<open>(b << 16) | a\<close> as an unsigned 32-bit value. The checksum of the empty buffer
  is 1 and that of the UTF-8 bytes of "Wikipedia" is \<open>0x11E60398\<close>.
\<close>

theorem adler32_is_reference:
  "unat (adler32 buf) = adler32_reference buf
   \<and> adler32 [] = 1
   \<and> adler32 (TextEncoder_encode (js ''Wikipedia'')) = 0x11E60398"
proof -
  have "unat (adler32 buf) = adler32_reference buf"
    by (simp add: adler32_def adler32_reference_def adler32Loop_foldl unat_shift_or
        split: prod.split)
  moreover have "adler32 [] = 1"
    by (simp add: adler32_def)
  moreover have "adler32 (TextEncoder_encode (js ''Wikipedia'')) = 0x11E60398"
    by (simp add: utf8_Wikipedia adler32_def adler32Loop_Cons del: adler32Loop.simps(2))
  ultimately show ?thesis by simp
qed

theorem adler32_is_reference_witness:
  "unat (adler32 [1, 2, 3]) = adler32_reference [1, 2, 3] \<and> adler32_reference [1, 2, 3] = 851975"
  using adler32_is_reference [of "[1, 2, 3]"]
  by (simp add: adler32_reference_def adlerStep_def Let_def)

subsection \<open>Padding\<close>

lemma unpadLoop_iff:
  "1 \<le> i \<Longrightarrow> unpadLoop buf pad i =
     (\<forall>j. i \<le> j \<and> j \<le> unat pad \<longrightarrow> j \<le> length buf \<and> buf ! (length buf - j) = pad)"
proof (induction buf pad i rule: unpadLoop.induct)
  case (1 buf pad i)
  show ?case
  proof (cases "i \<le> unat pad")
    case False
    then show ?thesis by (subst unpadLoop.simps) auto
  next
    case True
    show ?thesis
    proof (cases "byteAt buf (int (length buf) - int i) = Some pad")
      case False
      with True "1.prems" have "\<not> (i \<le> length buf \<and> buf ! (length buf - i) = pad)"
        by (auto simp: byteAt_def nat_diff_distrib' split: if_splits)
      with True False show ?thesis
        by (subst unpadLoop.simps) auto
    next
      case ok: True
      with "1.prems" have here: "i \<le> length buf \<and> buf ! (length buf - i) = pad"
        by (auto simp: byteAt_def nat_diff_distrib' split: if_splits)
      have "unpadLoop buf pad i = unpadLoop buf pad (i + 1)"
        using True ok by (subst unpadLoop.simps) simp
      also have "\<dots> =
        (\<forall>j. i + 1 \<le> j \<and> j \<le> unat pad \<longrightarrow> j \<le> length buf \<and> buf ! (length buf - j) = pad)"
        using "1.IH" [OF True] ok by simp
      also have "\<dots> =
        (\<forall>j. i \<le> j \<and> j \<le> unat pad \<longrightarrow> j \<le> length buf \<and> buf ! (length buf - j) = pad)"
      proof (intro iffI allI impI)
        fix j
        assume h: "\<forall>j. i + 1 \<le> j \<and> j \<le> unat pad \<longrightarrow>
            j \<le> length buf \<and> buf ! (length buf - j) = pad"
          and j: "i \<le> j \<and> j \<le> unat pad"
        show "j \<le> length buf \<and> buf ! (length buf - j) = pad"
        proof (cases "j = i")
          case True
          with here show ?thesis by simp
        next
          case False
          with j have "i + 1 \<le> j \<and> j \<le> unat pad" by simp
          with h show ?thesis by blast
        qed
      next
        fix j
        assume h: "\<forall>j. i \<le> j \<and> j \<le> unat pad \<longrightarrow>
            j \<le> length buf \<and> buf ! (length buf - j) = pad"
          and j: "i + 1 \<le> j \<and> j \<le> unat pad"
        then have "i \<le> j \<and> j \<le> unat pad" by simp
        with h show "j \<le> length buf \<and> buf ! (length buf - j) = pad" by blast
      qed
      finally show ?thesis .
    qed
  qed
qed

lemma unpadLoop_1:
  "unpadLoop buf pad 1 =
     (unat pad \<le> length buf \<and> list_all (\<lambda>b. b = pad) (drop (length buf - unat pad) buf))"
proof -
  have "unpadLoop buf pad 1 =
     (\<forall>j. 1 \<le> j \<and> j \<le> unat pad \<longrightarrow> j \<le> length buf \<and> buf ! (length buf - j) = pad)"
    by (rule unpadLoop_iff) simp
  also have "\<dots> =
    (unat pad \<le> length buf \<and> list_all (\<lambda>b. b = pad) (drop (length buf - unat pad) buf))"
  proof (intro iffI conjI)
    assume h: "\<forall>j. 1 \<le> j \<and> j \<le> unat pad \<longrightarrow> j \<le> length buf \<and> buf ! (length buf - j) = pad"
    show le: "unat pad \<le> length buf"
    proof (cases "unat pad = 0")
      case True
      then show ?thesis by simp
    next
      case False
      with h [rule_format, of "unat pad"] show ?thesis by simp
    qed
    show "list_all (\<lambda>b. b = pad) (drop (length buf - unat pad) buf)"
      unfolding list_all_length
    proof (intro allI impI)
      fix n
      assume n: "n < length (drop (length buf - unat pad) buf)"
      with le have "1 \<le> unat pad - n \<and> unat pad - n \<le> unat pad" by simp
      with h have "buf ! (length buf - (unat pad - n)) = pad" by blast
      moreover from n le have "length buf - (unat pad - n) = length buf - unat pad + n"
        by simp
      ultimately show "drop (length buf - unat pad) buf ! n = pad"
        using le by simp
    qed
  next
    assume h: "unat pad \<le> length buf
      \<and> list_all (\<lambda>b. b = pad) (drop (length buf - unat pad) buf)"
    show "\<forall>j. 1 \<le> j \<and> j \<le> unat pad \<longrightarrow> j \<le> length buf \<and> buf ! (length buf - j) = pad"
    proof (intro allI impI)
      fix j
      assume j: "1 \<le> j \<and> j \<le> unat pad"
      with h have jl: "j \<le> length buf" by simp
      from j h have "unat pad - j < length (drop (length buf - unat pad) buf)" by simp
      moreover from h have "\<forall>n < length (drop (length buf - unat pad) buf).
          drop (length buf - unat pad) buf ! n = pad"
        by (simp only: list_all_length) blast
      ultimately have "drop (length buf - unat pad) buf ! (unat pad - j) = pad"
        by blast
      then have "buf ! (length buf - unat pad + (unat pad - j)) = pad"
        using h by (simp only: nth_drop)
      moreover from j h have "length buf - unat pad + (unat pad - j) = length buf - j"
        by simp
      ultimately have "buf ! (length buf - j) = pad" by simp
      with jl show "j \<le> length buf \<and> buf ! (length buf - j) = pad" by simp
    qed
  qed
  finally show ?thesis .
qed

lemma byteAt_last: "buf \<noteq> [] \<Longrightarrow> byteAt buf (int (length buf) - 1) = Some (last buf)"
  by (cases buf rule: rev_cases) (simp_all add: byteAt_def nat_diff_distrib' nth_append)

lemma pkcs7Unpad_nonempty:
  "buf \<noteq> [] \<Longrightarrow>
   pkcs7Unpad buf =
     (if unat (last buf) \<le> length buf
         \<and> list_all (\<lambda>b. b = last buf) (drop (length buf - unat (last buf)) buf)
      then ([], take (length buf - unat (last buf)) buf)
      else ([''PKCS7 unpad failed, returning padded data''], buf))"
  using unpadLoop_1 [of buf "last buf"] by (simp add: pkcs7Unpad_def byteAt_last)

lemma pkcs7Pad_16:
  "pkcs7Pad buf 16 =
     Inr (buf @ replicate (16 - length buf mod 16) (of_nat (16 - length buf mod 16)))"
  by (simp add: pkcs7Pad_def Let_def)

lemma pkcs7Unpad_padded:
  "pkcs7Unpad (buf @ replicate (16 - length buf mod 16) (of_nat (16 - length buf mod 16)))
     = ([], buf)"
proof -
  define p where "p = 16 - length buf mod 16"
  have p: "1 \<le> p" "p \<le> 16" by (simp_all add: p_def)
  then have up: "unat (of_nat p :: u8) = p"
    by (simp add: unsigned_of_nat take_bit_eq_mod)
  let ?padded = "buf @ replicate p (of_nat p :: u8)"
  have ne: "?padded \<noteq> []" and last: "last ?padded = of_nat p"
    using p by auto
  have "pkcs7Unpad ?padded = ([], buf)"
    using p by (simp add: pkcs7Unpad_nonempty [OF ne] last up list_all_length)
  then show ?thesis by (simp add: p_def)
qed

text \<open>
  C6: for every buffer of 0 to 64 bytes and block size 16, unpadding the padded buffer
  gives the buffer back (and writes no warning).
\<close>

theorem pkcs7_pad_unpad:
  "length buf \<le> 64 \<Longrightarrow>
   (\<exists>padded. pkcs7Pad buf 16 = Inr padded \<and> pkcs7Unpad padded = ([], buf))"
  using pkcs7Pad_16 [of buf] pkcs7Unpad_padded [of buf] by blast

theorem pkcs7_pad_unpad_witness:
  "length [0x78, 1, 2 :: u8] \<le> 64
   \<and> pkcs7Pad [0x78, 1, 2] 16 = Inr ([0x78, 1, 2] @ replicate 13 13)
   \<and> (\<exists>padded. pkcs7Pad [0x78, 1, 2] 16 = Inr padded \<and> pkcs7Unpad padded = ([], [0x78, 1, 2]))"
  using pkcs7_pad_unpad [of "[0x78, 1, 2]"]
  by (simp add: pkcs7Pad_def)

text \<open>
  C7: on a buffer that is not empty, \<open>pkcs7Unpad\<close> reads \<open>p\<close>, the last byte. If the last
  \<open>p\<close> bytes of the buffer all equal \<open>p\<close>, the result is the buffer without its last \<open>p\<close>
  bytes; otherwise it writes a warning and the result is the buffer as it was given.
\<close>

theorem pkcs7Unpad_cases:
  "buf \<noteq> [] \<Longrightarrow>
   pkcs7Unpad buf =
     (if unat (last buf) \<le> length buf
         \<and> list_all (\<lambda>b. b = last buf) (drop (length buf - unat (last buf)) buf)
      then ([], take (length buf - unat (last buf)) buf)
      else ([''PKCS7 unpad failed, returning padded data''], buf))"
  by (rule pkcs7Unpad_nonempty)

theorem pkcs7Unpad_cases_witness:
  "[1, 2, 3, 2, 2] \<noteq> ([] :: u8 list) \<and> pkcs7Unpad [1, 2, 3, 2, 2] = ([], [1, 2, 3])
   \<and> [3, 3] \<noteq> ([] :: u8 list)
   \<and> pkcs7Unpad [3, 3] = ([''PKCS7 unpad failed, returning padded data''], [3, 3])
   \<and> pkcs7Unpad [9, 1, 2] = ([''PKCS7 unpad failed, returning padded data''], [9, 1, 2])"
  using pkcs7Unpad_cases [of "[1, 2, 3, 2, 2]"] pkcs7Unpad_cases [of "[3, 3]"]
    pkcs7Unpad_cases [of "[9, 1, 2]"]
  by simp

subsection \<open>Key derivation\<close>

lemma nat_and_ff: "(n::nat) AND 0xff = n mod 256"
  using take_bit_eq_mask [of 8 n] by (simp add: take_bit_eq_mod mask_eq_exp_minus_1)

lemma steamBytes_Suc:
  "steamBytes (Suc n) sid = of_nat (sid mod 256) # steamBytes n (sid div 256)"
  by (simp add: nat_and_ff drop_bit_eq_div)

lemma matchDigits_eq:
  "matchDigits n s =
     (if n \<le> length s \<and> list_all isDigit (take n s) then Some (drop n s) else None)"
  by (induction n s rule: matchDigits.induct) auto

lemma matchDigitsGreedy_Nil: "(matchDigitsGreedy s = []) = list_all isDigit s"
  by (induction s) auto

lemma steamPattern_iff: "steamPattern s = (17 \<le> length s \<and> list_all isDigit s)"
proof -
  have "list_all isDigit s = (list_all isDigit (take 17 s) \<and> list_all isDigit (drop 17 s))"
    by (metis append_take_drop_id list_all_append)
  then show ?thesis
    by (auto simp: steamPattern_def matchDigits_eq matchDigitsGreedy_Nil)
qed

lemma isDigit_iff: "isDigit c = (c \<in> asciiDigits)"
proof -
  have "isDigit c = (unat c \<in> {48..57})"
    by (simp add: isDigit_def word_le_nat_alt)
  also have "\<dots> = (unat c \<in> unat ` set (js ''0123456789''))"
    by (simp add: js_simps) arith
  also have "\<dots> = (c \<in> set (js ''0123456789''))"
    by (rule inj_image_mem_iff) (simp add: inj_on_def word_unat_eq_iff)
  finally show ?thesis by (simp add: asciiDigits_def)
qed

lemma steamPattern_digits: "steamPattern s = (17 \<le> length s \<and> set s \<subseteq> asciiDigits)"
  by (auto simp: steamPattern_iff list_all_iff isDigit_iff)

lemma parseDigits_acc: "parseDigits acc s = acc * 10 ^ length s + parseDigits 0 s"
proof (induction s arbitrary: acc)
  case Nil
  then show ?case by simp
next
  case (Cons c s)
  show ?case
    using Cons.IH [of "acc * 10 + (unat c - 0x30)"] Cons.IH [of "unat c - 0x30"]
    by (simp add: algebra_simps)
qed

lemma decimalValue_Cons:
  "decimalValue (c # s) = (unat c - 48) * 10 ^ length s + decimalValue s"
  unfolding decimalValue_def by (simp only: length_Cons sum.lessThan_Suc_shift) simp

lemma BigInt_decimalValue: "BigInt s = decimalValue s"
proof -
  have "parseDigits 0 s = decimalValue s"
  proof (induction s)
    case Nil
    then show ?case by (simp add: decimalValue_def)
  next
    case (Cons c s)
    then show ?case
      using parseDigits_acc [of "unat c - 0x30" s] by (simp add: decimalValue_Cons)
  qed
  then show ?thesis by (simp add: BigInt_def)
qed

lemma steamBytes_littleEndian: "steamBytes n sid = littleEndian n sid"
  unfolding littleEndian_def
proof (induction n arbitrary: sid)
  case 0
  then show ?case by simp
next
  case (Suc n)
  have "map (\<lambda>i. (of_nat (sid div 256 ^ i mod 256) :: u8)) [0..<Suc n]
        = of_nat (sid mod 256) # map (\<lambda>i. of_nat (sid div 256 ^ Suc i mod 256)) [0..<n]"
    by (simp only: upt_conv_Cons [of 0 "Suc n"] map_Suc_upt [symmetric]) (simp add: comp_def)
  also have "\<dots> = of_nat (sid mod 256) # map (\<lambda>i. of_nat (sid div 256 div 256 ^ i mod 256)) [0..<n]"
    by (simp add: div_mult2_eq)
  finally show ?case
    using Suc.IH [of "sid div 256"] by (simp add: steamBytes_Suc del: steamBytes.simps(2) upt_Suc)
qed

lemma byte_of_wrapped:
  assumes "i < 8"
  shows "(v mod 2 ^ 64) div 256 ^ i mod 256 = (v::nat) div 256 ^ i mod 256"
proof -
  have "(256::nat) ^ i = 2 ^ (8 * i)"
    by (simp add: power_mult)
  moreover have "take_bit 8 (drop_bit (8 * i) (take_bit 64 v)) = take_bit 8 (drop_bit (8 * i) v)"
  proof -
    from assms have "8 \<le> 64 - 8 * i" by arith
    then show ?thesis by (simp add: drop_bit_take_bit min_def)
  qed
  ultimately show ?thesis
    by (simp add: take_bit_eq_mod drop_bit_eq_div)
qed

lemma littleEndian_wrapped: "littleEndian 8 (v mod 2 ^ 64) = littleEndian 8 v"
  unfolding littleEndian_def by (rule map_cong) (use byte_of_wrapped [of _ v] in simp_all)

lemma and_ff_u8: "(w :: u8) AND 0xff = w"
proof -
  have "(0xff :: u8) = - 1" by simp
  then show ?thesis by (simp only: and.right_neutral bit.conj_one_right)
qed

lemma low_byte: "(ucast (c AND 0xff) :: u8) = of_nat (unat c mod 256)" for c :: u16
proof -
  have "(ucast (c AND 0xff) :: u8) = ucast c AND 0xff"
    by (simp add: unsigned_and_eq)
  also have "\<dots> = ucast c" by (rule and_ff_u8)
  also have "\<dots> = of_nat (unat c)" by simp
  also have "\<dots> = of_nat (unat c mod 256)"
    by (simp only: word_of_nat_eq_iff) (simp add: take_bit_eq_mod)
  finally show ?thesis .
qed

lemma high_byte: "(ucast (drop_bit 8 c AND 0xff) :: u8) = of_nat (unat c div 256)" for c :: u16
proof -
  have "(ucast (drop_bit 8 c AND 0xff) :: u8) = ucast (drop_bit 8 c) AND 0xff"
    by (simp add: unsigned_and_eq)
  also have "\<dots> = ucast (drop_bit 8 c)" by (rule and_ff_u8)
  also have "\<dots> = of_nat (unat (drop_bit 8 c))" by simp
  also have "\<dots> = of_nat (unat c div 256)"
  proof -
    have "unat (drop_bit 8 c) = unat c div 256"
      by (simp add: drop_bit_eq_div unat_div)
    then show ?thesis by (simp only:)
  qed
  finally show ?thesis .
qed


lemma utf16leBytes_utf16le: "utf16leBytes s = utf16le s"
proof (induction s)
  case Nil
  then show ?case by (simp add: utf16le_def)
next
  case (Cons c s)
  have "utf16leBytes (c # s) =
      of_nat (unat c mod 256) # of_nat (unat c div 256) # utf16leBytes s"
    unfolding utf16leBytes.simps by (simp only: low_byte [of c] high_byte [of c])
  with Cons show ?case
    by (simp add: utf16le_def)
qed

lemma uid_bytes_cases:
  "uid_bytes userID =
     (if 17 \<le> length userID \<and> set userID \<subseteq> asciiDigits
      then littleEndian 8 (decimalValue userID mod 2 ^ 64)
      else utf16le userID)"
  by (simp only: uid_bytes_def steamPattern_digits steamBytes_littleEndian BigInt_decimalValue
      littleEndian_wrapped utf16leBytes_utf16le)

lemma set_js_digits: "set (js ''1234567890123456'') \<subseteq> asciiDigits"
  by (simp add: asciiDigits_def js_simps)

lemma steamBytes_eval:
  "steamBytes 8 sid =
     [of_nat (sid mod 256), of_nat (sid div 256 mod 256), of_nat (sid div 256 ^ 2 mod 256),
      of_nat (sid div 256 ^ 3 mod 256), of_nat (sid div 256 ^ 4 mod 256),
      of_nat (sid div 256 ^ 5 mod 256), of_nat (sid div 256 ^ 6 mod 256),
      of_nat (sid div 256 ^ 7 mod 256)]"
proof -
  have "[0..<8] = [0, 1, 2, 3, 4, 5, 6, 7 :: nat]"
    by (simp add: upt_rec)
  then show ?thesis
    by (simp only: steamBytes_littleEndian littleEndian_def list.map power_0 power_one_right div_by_1)
qed

lemma uid_bytes_16: "uid_bytes (js ''1234567890123456'') =
     [49, 0, 50, 0, 51, 0, 52, 0, 53, 0, 54, 0, 55, 0, 56, 0, 57, 0, 48, 0, 49, 0, 50, 0, 51, 0,
      52, 0, 53, 0, 54, 0]"
  by (simp add: uid_bytes_def steamPattern_iff js_simps)

lemma uid_bytes_17:
  "uid_bytes (js ''12345678901234567'') = [135, 75, 107, 93, 84, 220, 43, 0]"
  by (simp add: uid_bytes_def steamPattern_iff js_simps isDigit_def BigInt_def steamBytes_eval)

text \<open>
  C4: \<open>deriveKey\<close> takes the Steam path exactly when the identity is 17 or more ASCII
  digits and nothing else: then the identity bytes are the eight little-endian bytes of the
  decimal number, which wraps silently past 64 bits. Every other identity takes the Epic
  path: two bytes per UTF-16 code unit, low byte first, in the original order. The key is the
  base key with these bytes XORed in. "1234567890123456" (16 digits) takes the Epic path and
  "12345678901234567" (17 digits) the Steam path.
\<close>

theorem deriveKey_classification:
  "steamPattern userID = (17 \<le> length userID \<and> set userID \<subseteq> asciiDigits)
   \<and> uid_bytes userID =
       (if 17 \<le> length userID \<and> set userID \<subseteq> asciiDigits
        then littleEndian 8 (decimalValue userID mod 2 ^ 64)
        else utf16le userID)
   \<and> deriveKey userID = xorInto BASE_KEY (uid_bytes userID)
   \<and> \<not> steamPattern (js ''1234567890123456'')
   \<and> uid_bytes (js ''1234567890123456'') =
       [49, 0, 50, 0, 51, 0, 52, 0, 53, 0, 54, 0, 55, 0, 56, 0, 57, 0, 48, 0, 49, 0, 50, 0, 51, 0,
        52, 0, 53, 0, 54, 0]
   \<and> steamPattern (js ''12345678901234567'')
   \<and> uid_bytes (js ''12345678901234567'') = [135, 75, 107, 93, 84, 220, 43, 0]"
proof -
  have "\<not> steamPattern (js ''1234567890123456'')"
    by (simp add: steamPattern_iff js_simps)
  moreover have "steamPattern (js ''12345678901234567'')"
    by (simp add: steamPattern_iff js_simps isDigit_def)
  ultimately show ?thesis
    using steamPattern_digits [of userID] uid_bytes_cases [of userID] uid_bytes_16 uid_bytes_17
    by (simp only: deriveKey_def simp_thms)
qed


lemma uid_bytes_steam_example:
  "uid_bytes (js ''76561198012345678'') = [78, 173, 26, 3, 1, 0, 16, 1]"
  by (simp add: uid_bytes_def steamPattern_iff js_simps isDigit_def BigInt_def steamBytes_eval)

theorem deriveKey_classification_witness:
  "steamPattern (js ''76561198012345678'')
   \<and> uid_bytes (js ''76561198012345678'') = littleEndian 8 (decimalValue (js ''76561198012345678'') mod 2 ^ 64)
   \<and> uid_bytes (js ''76561198012345678'') = [78, 173, 26, 3, 1, 0, 16, 1]
   \<and> \<not> steamPattern (js ''abc'')
   \<and> uid_bytes (js ''abc'') = utf16le (js ''abc'')
   \<and> uid_bytes (js ''abc'') = [97, 0, 98, 0, 99, 0]"
proof -
  have a: "steamPattern (js ''76561198012345678'')"
    by (simp add: steamPattern_iff js_simps isDigit_def)
  have b: "\<not> steamPattern (js ''abc'')"
    by (simp add: steamPattern_iff js_simps)
  have c: "uid_bytes (js ''abc'') = [97, 0, 98, 0, 99, 0]"
    by (simp add: uid_bytes_def steamPattern_iff js_simps)
  show ?thesis
    using deriveKey_classification [of "js ''76561198012345678''"]
      deriveKey_classification [of "js ''abc''"] a b c uid_bytes_steam_example
    by (simp only: simp_thms if_True if_False)
qed

lemma length_xorInto: "length (xorInto ks us) = length ks"
  by (induction ks us rule: xorInto.induct) auto

lemma drop_xorInto: "drop (length us) (xorInto ks us) = drop (length us) ks"
  by (induction ks us rule: xorInto.induct) auto

lemma length_steamBytes: "length (steamBytes n sid) = n"
  by (induction n arbitrary: sid) auto

lemma length_BASE_KEY: "length BASE_KEY = 32"
  by (simp add: BASE_KEY_def)

lemma length_deriveKey: "length (deriveKey userID) = 32"
  by (simp add: deriveKey_def length_xorInto length_BASE_KEY)

text \<open>
  C10: \<open>deriveKey\<close> has no failing branch and returns exactly 32 bytes for every string,
  the empty one included. For an identity of 17 or more digits the identity contributes
  exactly 8 bytes, so the key equals the base key from its ninth byte on.
\<close>

theorem deriveKey_total_32:
  "length (deriveKey userID) = 32
   \<and> (17 \<le> length userID \<and> set userID \<subseteq> asciiDigits \<longrightarrow>
        length (uid_bytes userID) = 8 \<and> drop 8 (deriveKey userID) = drop 8 BASE_KEY)"
proof -
  have "length (uid_bytes userID) = 8 \<and> drop 8 (deriveKey userID) = drop 8 BASE_KEY"
    if "17 \<le> length userID \<and> set userID \<subseteq> asciiDigits"
  proof -
    from that have "steamPattern userID" by (simp add: steamPattern_digits)
    then have len: "length (uid_bytes userID) = 8"
      by (simp add: uid_bytes_def length_steamBytes)
    with drop_xorInto [of "uid_bytes userID" BASE_KEY] show ?thesis
      by (simp add: deriveKey_def)
  qed
  with length_deriveKey show ?thesis by blast
qed

lemma deriveKey_steam_example:
  "deriveKey (js ''76561198012345678'') =
     [123, 65, 41, 116, 242, 93, 160, 235, 190, 107, 131, 17, 84, 3, 235, 251, 39, 37, 100, 46,
      213, 73, 6, 41, 5, 120, 189, 96, 186, 74, 167, 135]"
  by (simp add: deriveKey_def uid_bytes_steam_example BASE_KEY_def)

theorem deriveKey_total_32_witness:
  "length (deriveKey []) = 32
   \<and> 17 \<le> length (js ''76561198012345678'') \<and> set (js ''76561198012345678'') \<subseteq> asciiDigits
   \<and> length (deriveKey (js ''76561198012345678'')) = 32
   \<and> length (uid_bytes (js ''76561198012345678'')) = 8
   \<and> drop 8 (deriveKey (js ''76561198012345678'')) = drop 8 BASE_KEY
   \<and> take 8 (deriveKey (js ''76561198012345678'')) = [123, 65, 41, 116, 242, 93, 160, 235]"
proof -
  have "17 \<le> length (js ''76561198012345678'') \<and> set (js ''76561198012345678'') \<subseteq> asciiDigits"
    by (simp add: js_simps asciiDigits_def)
  moreover have "take 8 (deriveKey (js ''76561198012345678'')) = [123, 65, 41, 116, 242, 93, 160, 235]"
    by (simp add: deriveKey_steam_example)
  ultimately show ?thesis
    using deriveKey_total_32 [of "[]"] deriveKey_total_32 [of "js ''76561198012345678''"]
    by blast
qed

lemma deriveKey_Nil: "deriveKey [] = BASE_KEY"
  by (simp add: deriveKey_def uid_bytes_def steamPattern_iff BASE_KEY_def)

text \<open>
  C5, as stated, fails: \<open>deriveKey\<close> applied to the empty string throws nothing. It returns
  a key, namely the base key.
\<close>

theorem deriveKey_empty_returns_key:
  "deriveKey [] = BASE_KEY \<and> length (deriveKey []) = 32"
  by (simp add: deriveKey_Nil length_BASE_KEY)

text \<open>
  C5, amended: \<open>deriveKey\<close> applied to the empty string returns the base key unchanged. The
  empty identity is rejected by the callers: \<open>decryptSave\<close> and \<open>encryptSave\<close> throw
  "Please enter platform user ID (Steam or Epic)" before anything else happens.
\<close>

theorem empty_identity_rejected_by_callers:
  "deriveKey [] = BASE_KEY
   \<and> outcome (decryptSave win fileArrayBuffer []) =
       Inl (Error ''Please enter platform user ID (Steam or Epic)'')
   \<and> inflateCalls (decryptSave win fileArrayBuffer []) = []
   \<and> encryptSave win yamlContent [] = Inl (Error ''Please enter platform user ID (Steam or Epic)'')"
  by (simp add: deriveKey_Nil decryptSave_def encryptSave_def)

theorem empty_identity_rejected_by_callers_witness:
  "outcome (decryptSave (testWindow framedZlib) [1, 2, 3] []) =
       Inl (Error ''Please enter platform user ID (Steam or Epic)'')
   \<and> encryptSave (testWindow framedZlib) (js ''a: 1'') [] =
       Inl (Error ''Please enter platform user ID (Steam or Epic)'')"
  using empty_identity_rejected_by_callers [of "testWindow framedZlib" "[1, 2, 3]" "js ''a: 1''"]
  by simp

lemma xorInto_eq:
  "xorInto ks us = map2 (XOR) ks (take (length ks) us @ replicate (length ks - length us) 0)"
  by (induction ks us rule: xorInto.induct) (auto simp: zip_replicate2 map_idI)

lemma map2_xor_inj:
  "length us = length ks \<Longrightarrow> length vs = length ks \<Longrightarrow>
   map2 (XOR) ks us = map2 (XOR) ks vs \<Longrightarrow> us = (vs :: u8 list)"
proof (induction ks arbitrary: us vs)
  case Nil
  then show ?case by simp
next
  case (Cons k ks)
  then obtain u us' v vs' where eq: "us = u # us'" "vs = v # vs'"
    by (metis length_Suc_conv)
  with Cons.prems have "k XOR u = k XOR v" and tl: "map2 (XOR) ks us' = map2 (XOR) ks vs'"
    and len: "length us' = length ks" "length vs' = length ks"
    by auto
  then have "u = v" by (metis bit.xor_left_self)
  with Cons.IH [OF len tl] show ?case by (simp add: eq)
qed

lemma deriveKey_material:
  "deriveKey userID = map2 (XOR) BASE_KEY (zeroExtend32 (truncate32 (uid_bytes userID)))"
  by (simp add: deriveKey_def xorInto_eq zeroExtend32_def truncate32_def length_BASE_KEY min_def)

text \<open>
  C3, amended: if two identities have the same derived key, then their identity bytes (eight
  little-endian bytes on the Steam path, UTF-16LE on the Epic path), cut to 32 bytes and
  filled up with zero bytes to 32 bytes, coincide.
\<close>

theorem equal_keys_equal_material:
  "deriveKey id1 = deriveKey id2 \<Longrightarrow>
   zeroExtend32 (truncate32 (uid_bytes id1)) = zeroExtend32 (truncate32 (uid_bytes id2))"
proof -
  assume "deriveKey id1 = deriveKey id2"
  then have "map2 (XOR) BASE_KEY (zeroExtend32 (truncate32 (uid_bytes id1)))
      = map2 (XOR) BASE_KEY (zeroExtend32 (truncate32 (uid_bytes id2)))"
    by (simp only: deriveKey_material)
  moreover have "length (zeroExtend32 (truncate32 bs)) = length BASE_KEY" for bs
    by (simp add: zeroExtend32_def truncate32_def length_BASE_KEY)
  ultimately show ?thesis
    by (blast intro: map2_xor_inj)
qed

lemma uid_bytes_A: "uid_bytes (js ''A'') = [65, 0]"
  by (simp add: uid_bytes_def steamPattern_iff js_simps)

lemma uid_bytes_65: "uid_bytes (js ''00000000000000065'') = [65, 0, 0, 0, 0, 0, 0, 0]"
  by (simp add: uid_bytes_def steamPattern_iff js_simps isDigit_def BigInt_def steamBytes_eval)

lemma deriveKey_A_65: "deriveKey (js ''A'') = deriveKey (js ''00000000000000065'')"
  by (simp add: deriveKey_def uid_bytes_A uid_bytes_65 BASE_KEY_def)

text \<open>
  C3, as stated, fails: the Epic identity "A" and the Steam identity "00000000000000065" have
  the same key, and their identity bytes cut to 32 bytes differ (\<open>41 00\<close> against
  \<open>41 00 00 00 00 00 00 00\<close>).
\<close>

theorem equal_keys_different_bytes:
  "deriveKey (js ''A'') = deriveKey (js ''00000000000000065'')
   \<and> truncate32 (uid_bytes (js ''A'')) \<noteq> truncate32 (uid_bytes (js ''00000000000000065''))"
  by (simp add: deriveKey_A_65 uid_bytes_A uid_bytes_65 truncate32_def)

theorem equal_keys_equal_material_witness:
  "deriveKey (js ''A'') = deriveKey (js ''00000000000000065'')
   \<and> zeroExtend32 (truncate32 (uid_bytes (js ''A'')))
       = zeroExtend32 (truncate32 (uid_bytes (js ''00000000000000065'')))
   \<and> zeroExtend32 (truncate32 (uid_bytes (js ''A''))) = [65, 0] @ replicate 30 0"
proof -
  have "zeroExtend32 (truncate32 (uid_bytes (js ''A''))) = [65, 0] @ replicate 30 0"
    by (simp add: uid_bytes_A zeroExtend32_def truncate32_def)
  with equal_keys_equal_material [OF deriveKey_A_65] deriveKey_A_65 show ?thesis
    by simp
qed

subsection \<open>Words and bytes\<close>

lemma sshift_byte:
  "k \<le> 24 \<Longrightarrow> (ucast (signed_drop_bit k w AND 0xff) :: u8) = ucast (drop_bit k w)" for w :: u32
proof (rule bit_word_eqI)
  fix n assume "n < LENGTH(8)"
  then have n: "n < 8" by simp
  assume k: "k \<le> 24"
  have "(0xff :: u32) = mask 8" by (simp add: mask_eq_exp_minus_1)
  then have "bit (0xff :: u32) n" using n by (simp only: bit_mask_iff) simp
  moreover from n k have "\<not> 32 - k \<le> n" by arith
  ultimately show "bit (ucast (signed_drop_bit k w AND 0xff) :: u8) n = bit (ucast (drop_bit k w) :: u8) n"
    using n k by (simp add: bit_simps)
qed

lemma low_byte32: "(ucast (w AND 0xff) :: u8) = ucast w" for w :: u32
  using sshift_byte [of 0 w] by simp

lemma wordBytes_eq:
  "wordBytes w = [ucast (drop_bit 24 w), ucast (drop_bit 16 w), ucast (drop_bit 8 w), ucast w]"
  unfolding wordBytes_def
  using sshift_byte [of 24 w] sshift_byte [of 16 w] sshift_byte [of 8 w] low_byte32 [of w]
  by simp

lemma wordBytes_be32: "wordBytes (be32 a b c d) = [a, b, c, d]"
  unfolding wordBytes_eq be32_def
  apply simp
  apply (intro conjI; rule bit_word_eqI; simp add: bit_simps)
    apply (auto dest: bit_imp_le_length)
  done




lemma wordsToBytes_packWords: "length bs mod 4 = 0 \<Longrightarrow> wordsToBytes (packWords bs) = bs"
proof (induction bs rule: packWords.induct)
  case (1 a b c d rest)
  then have "length rest mod 4 = 0" by simp
  with 1 show ?case
    using wordBytes_be32 [of a b c d] by (simp add: wordsToBytes_def)
qed (simp_all add: wordsToBytes_def)


lemma decryptBuffer_nullCipher:
  "length ciph mod 4 = 0 \<Longrightarrow> decryptBuffer nullCipher ciph userID = ciph"
  by (simp add: decryptBuffer_def nullCipher_def uint8ArrayToWordArray_def Let_def
      wordsToBytes_packWords)

subsection \<open>The trim loop in \<open>decryptSave\<close>\<close>

lemma byteAt_0: "(byteAt cand 0 \<noteq> Some 0x78) = (cand = [] \<or> hd cand \<noteq> 0x78)"
  by (cases cand) (simp_all add: byteAt_def)

lemma tryTrims_step:
  "tryTrims P pt (trim # rest) =
     (case gatedCandidate pt trim of
        None \<Rightarrow> tryTrims P pt rest
      | Some candidate \<Rightarrow>
          (case inflate P candidate of
             Throws \<Rightarrow> (candidate # fst (tryTrims P pt rest), snd (tryTrims P pt rest))
           | ReturnsUndefined \<Rightarrow> ([candidate], (None, Some trim))
           | ReturnsBytes bytes \<Rightarrow> ([candidate], (Some bytes, Some trim))))"
  by (auto simp: gatedCandidate_def trimCandidate_def byteAt_0 Let_def
      split: if_splits prod.splits inflate_result.splits)

lemma decryptSave_outcome:
  assumes "userID \<noteq> []" "CryptoJS win = Some C" "pako win = Some P"
  shows "outcome (decryptSave win ciph userID) =
     (case fst (snd (tryTrims P (snd (pkcs7Unpad (decryptBuffer C ciph userID))) trimOptions)) of
        None \<Rightarrow> Inl (Error ''Zlib decompress failed. Wrong user ID or file format?'')
      | Some inflated \<Rightarrow> Inr (TextDecoder_decode inflated))"
    and "inflateCalls (decryptSave win ciph userID) =
      fst (tryTrims P (snd (pkcs7Unpad (decryptBuffer C ciph userID))) trimOptions)"
  using assms by (auto simp: decryptSave_def split: prod.splits option.splits)

lemma decode_trim_loop:
  "tryTrims P pt trimOptions =
     (case gatedCandidate pt 4 of
        None \<Rightarrow>
          (case gatedCandidate pt 8 of
             None \<Rightarrow> ([], (None, None))
           | Some c8 \<Rightarrow>
               (case inflate P c8 of
                  Throws \<Rightarrow> ([c8], (None, None))
                | ReturnsUndefined \<Rightarrow> ([c8], (None, Some 8))
                | ReturnsBytes bytes \<Rightarrow> ([c8], (Some bytes, Some 8))))
      | Some c4 \<Rightarrow>
          (case inflate P c4 of
             Throws \<Rightarrow>
               (case gatedCandidate pt 8 of
                  None \<Rightarrow> ([c4], (None, None))
                | Some c8 \<Rightarrow>
                    (case inflate P c8 of
                       Throws \<Rightarrow> ([c4, c8], (None, None))
                     | ReturnsUndefined \<Rightarrow> ([c4, c8], (None, Some 8))
                     | ReturnsBytes bytes \<Rightarrow> ([c4, c8], (Some bytes, Some 8))))
           | ReturnsUndefined \<Rightarrow> ([c4], (None, Some 4))
           | ReturnsBytes bytes \<Rightarrow> ([c4], (Some bytes, Some 4))))"
  unfolding trimOptions_def
  by (simp only: tryTrims_step tryTrims.simps(1))
     (simp split: option.splits inflate_result.splits)

lemma utf8Decoder_ascii:
  "list_all (\<lambda>b. b < 0x80) bs \<Longrightarrow> utf8Decoder 0 0 0 0x80 0xBF bs = map unat bs"
  by (induction bs) (auto simp: word_less_nat_alt)

lemma TextDecoder_ascii:
  assumes "list_all (\<lambda>b. b < 0x80) bs"
  shows "TextDecoder_decode bs = map ucast bs"
proof -
  have small: "list_all (\<lambda>cp. cp < 0x80) (map unat bs)"
    using assms by (simp add: list_all_iff word_less_nat_alt)
  then have nobom: "\<not> (map unat bs \<noteq> [] \<and> hd (map unat bs) = 0xFEFF)"
    by (cases bs) auto
  have "concat (map utf16Units (map unat bs)) = map ucast bs"
    using assms by (induction bs) (auto simp: utf16Units_def word_less_nat_alt)
  with nobom show ?thesis
    by (simp only: TextDecoder_decode_def utf8Decoder_ascii [OF assms] Let_def if_False)
qed

subsection \<open>Encoding and decoding again\<close>

lemma ucast_drop_bit_byte:
  "(ucast (drop_bit k x) :: u8) = of_nat (unat x div 2 ^ k mod 256)" for x :: u32
proof -
  have "(ucast (drop_bit k x) :: u8) = of_nat (unat (drop_bit k x))"
    by simp
  also have "unat (drop_bit k x) = unat x div 2 ^ k"
    by (simp only: unat_drop_bit_eq) (simp add: drop_bit_eq_div)
  also have "(of_nat (unat x div 2 ^ k) :: u8) = of_nat (unat x div 2 ^ k mod 256)"
    by (simp only: word_of_nat_eq_iff) (simp add: take_bit_eq_mod)
  finally show ?thesis .
qed

lemma writeLE32_bytes:
  "writeLE32 x = [of_nat (unat x mod 256), of_nat (unat x div 256 mod 256),
      of_nat (unat x div 256 ^ 2 mod 256), of_nat (unat x div 256 ^ 3 mod 256)]"
proof -
  have "writeLE32 x = [ucast (drop_bit 0 x), ucast (drop_bit 8 x), ucast (drop_bit 16 x), ucast (drop_bit 24 x)]"
    unfolding writeLE32_def
    using sshift_byte [of 24 x] sshift_byte [of 16 x] sshift_byte [of 8 x] low_byte32 [of x]
    by simp
  also have "\<dots> = [of_nat (unat x div 2 ^ 0 mod 256), of_nat (unat x div 2 ^ 8 mod 256),
      of_nat (unat x div 2 ^ 16 mod 256), of_nat (unat x div 2 ^ 24 mod 256)]"
    by (simp only: ucast_drop_bit_byte)
  finally show ?thesis by simp
qed













subsection \<open>The stand-ins\<close>





lemma encryptSave_testWindow:
  assumes "userID \<noteq> []" and "cipherInput P yamlContent = Inr padded"
    and "length padded mod 4 = 0"
  shows "encryptSave (testWindow P) yamlContent userID
     = Inr \<lparr>blobBytes = padded, blobType = ''application/octet-stream''\<rparr>"
  using assms
  by (simp add: encryptSave_def testWindow_def nullCipher_def Let_def uint8ArrayToWordArray_def
      wordsToBytes_packWords)



lemma lv1_file:
  "[0x78, 0xDA, 0xCB, 0x29, 0xB3, 0x52, 0x30, 0xE4, 0x02, 0x00, 0x06, 0x90, 0x01, 0x78,
    0x78, 0x01, 0x90, 0x06, 0x06, 0x00, 0x00, 0x00,
    0x0A, 0x0A, 0x0A, 0x0A, 0x0A, 0x0A, 0x0A, 0x0A, 0x0A, 0x0A]
   = (lv1Deflated @ [0x78, 0x01, 0x90, 0x06, 0x06, 0x00, 0x00, 0x00]) @ replicate 10 10"
  by (simp add: lv1Deflated_def numeral_eq_Suc)

lemma lv1_unpadded:
  "snd (pkcs7Unpad (decryptBuffer nullCipher
     [0x78, 0xDA, 0xCB, 0x29, 0xB3, 0x52, 0x30, 0xE4, 0x02, 0x00, 0x06, 0x90, 0x01, 0x78,
      0x78, 0x01, 0x90, 0x06, 0x06, 0x00, 0x00, 0x00,
      0x0A, 0x0A, 0x0A, 0x0A, 0x0A, 0x0A, 0x0A, 0x0A, 0x0A, 0x0A] (js ''76561198012345678'')))
   = lv1Deflated @ [0x78, 0x01, 0x90, 0x06, 0x06, 0x00, 0x00, 0x00]"
proof -
  have "pkcs7Unpad
     [0x78, 0xDA, 0xCB, 0x29, 0xB3, 0x52, 0x30, 0xE4, 0x02, 0x00, 0x06, 0x90, 0x01, 0x78,
      0x78, 0x01, 0x90, 0x06, 0x06, 0x00, 0x00, 0x00,
      0x0A, 0x0A, 0x0A, 0x0A, 0x0A, 0x0A, 0x0A, 0x0A, 0x0A, 0x0A]
    = ([], [0x78, 0xDA, 0xCB, 0x29, 0xB3, 0x52, 0x30, 0xE4, 0x02, 0x00, 0x06, 0x90, 0x01, 0x78,
      0x78, 0x01, 0x90, 0x06, 0x06, 0x00, 0x00, 0x00])"
    by (subst pkcs7Unpad_nonempty) simp_all
  then show ?thesis
    by (simp add: decryptBuffer_nullCipher lv1Deflated_def)
qed

lemma lv1_candidates:
  "gatedCandidate (lv1Deflated @ [0x78, 0x01, 0x90, 0x06, 0x06, 0x00, 0x00, 0x00]) 4
     = Some (lv1Deflated @ [0x78, 0x01, 0x90, 0x06])"
  "gatedCandidate (lv1Deflated @ [0x78, 0x01, 0x90, 0x06, 0x06, 0x00, 0x00, 0x00]) 8
     = Some lv1Deflated"
  by (simp_all add: gatedCandidate_def trimCandidate_def lv1Deflated_def)

lemma lv1_inflate:
  "inflate recordedPako (lv1Deflated @ [0x78, 0x01, 0x90, 0x06]) = ReturnsUndefined"
  "inflate recordedPako lv1Deflated = ReturnsBytes lv1Bytes"
  by (simp_all add: recordedPako_def recordedInflate_def)

lemma lv1_window:
  "js ''76561198012345678'' \<noteq> []"
  "CryptoJS (testWindow recordedPako) = Some nullCipher"
  "pako (testWindow recordedPako) = Some recordedPako"
  by (simp_all add: testWindow_def js_simps)

lemma lv1_text:
  "TextEncoder_encode (js ''lv: 1\<newline>'') = lv1Bytes"
  "TextDecoder_decode lv1Bytes = js ''lv: 1\<newline>''"
  unfolding lv1Bytes_def
  by (subst TextEncoder_ascii, simp_all add: js_simps)
     (subst TextDecoder_ascii, simp_all add: js_simps)

lemma lv1_adler: "adler32 lv1Bytes = 0x06900178"
  by (simp add: lv1Bytes_def adler32_def adler32Loop_Cons del: adler32Loop.simps(2))

lemma lv1_encrypt:
  "encryptSave (testWindow recordedPako) (js ''lv: 1\<newline>'') (js ''76561198012345678'')
     = Inr \<lparr>blobBytes =
         [0x78, 0xDA, 0xCB, 0x29, 0xB3, 0x52, 0x30, 0xE4, 0x02, 0x00, 0x06, 0x90, 0x01, 0x78,
          0x78, 0x01, 0x90, 0x06, 0x06, 0x00, 0x00, 0x00,
          0x0A, 0x0A, 0x0A, 0x0A, 0x0A, 0x0A, 0x0A, 0x0A, 0x0A, 0x0A],
        blobType = ''application/octet-stream''\<rparr>"
proof -
  have "packedContainer recordedPako lv1Bytes
      = lv1Deflated @ [0x78, 0x01, 0x90, 0x06, 0x06, 0x00, 0x00, 0x00]"
    by (simp add: packedContainer_def Let_def recordedPako_def lv1_adler writeLE32_bytes)
      (simp add: lv1Bytes_def)
  then have "cipherInput recordedPako (js ''lv: 1\<newline>'')
      = Inr ((lv1Deflated @ [0x78, 0x01, 0x90, 0x06, 0x06, 0x00, 0x00, 0x00]) @ replicate 10 10)"
    by (simp add: cipherInput_def lv1_text pkcs7Pad_def lv1Deflated_def)
  then have ci: "cipherInput recordedPako (js ''lv: 1\<newline>'')
      = Inr [0x78, 0xDA, 0xCB, 0x29, 0xB3, 0x52, 0x30, 0xE4, 0x02, 0x00, 0x06, 0x90, 0x01, 0x78,
          0x78, 0x01, 0x90, 0x06, 0x06, 0x00, 0x00, 0x00,
          0x0A, 0x0A, 0x0A, 0x0A, 0x0A, 0x0A, 0x0A, 0x0A, 0x0A, 0x0A]"
    by (simp only: lv1_file)
  show ?thesis
    by (rule encryptSave_testWindow [OF lv1_window(1) ci]) simp
qed

subsection \<open>The round trip of one text\<close>








subsection \<open>A falsy return of \<open>pako.inflate\<close>\<close>

text \<open>
  C2 says that the first candidate that starts with \<open>0x78\<close> and inflates successfully is
  accepted. \<open>decryptSave\<close> does not do that when \<open>pako.inflate\<close> returns \<open>undefined\<close> on an
  earlier candidate: if the candidate of trim 4 starts with \<open>0x78\<close> and \<open>pako.inflate\<close>
  returns \<open>undefined\<close> on it, while the candidate of trim 8 starts with \<open>0x78\<close> and inflates,
  then the candidate of trim 8 is the first that starts with \<open>0x78\<close> and inflates, and yet
  \<open>pako.inflate\<close> is called on the candidate of trim 4 only and the inflation of the
  candidate of trim 8 is not what \<open>decryptSave\<close> returns.
\<close>

theorem later_candidate_never_tried:
  assumes "userID \<noteq> []" and "CryptoJS win = Some C" and "pako win = Some P"
    and "snd (pkcs7Unpad (decryptBuffer C ciph userID)) = unpadded"
    and "gatedCandidate unpadded 4 = Some cand4" and "inflate P cand4 = ReturnsUndefined"
    and "gatedCandidate unpadded 8 = Some cand8" and "inflate P cand8 = ReturnsBytes bytes8"
  shows "acceptedInflation P unpadded 4 = None
       \<and> acceptedInflation P unpadded 8 = Some bytes8
       \<and> inflateCalls (decryptSave win ciph userID) = [cand4]
       \<and> cand8 \<notin> set (inflateCalls (decryptSave win ciph userID))
       \<and> outcome (decryptSave win ciph userID) \<noteq> Inr (TextDecoder_decode bytes8)"
proof -
  have loop: "tryTrims P unpadded trimOptions = ([cand4], (None, Some 4))"
    by (simp add: decode_trim_loop assms(5,6))
  have "cand8 \<noteq> cand4"
    using assms(6,8) by auto
  with loop show ?thesis
    by (simp add: decryptSave_outcome [OF assms(1-3)] assms(4-8) acceptedInflation_def)
qed

theorem later_candidate_never_tried_witness:
  "gatedCandidate (lv1Deflated @ [0x78, 0x01, 0x90, 0x06, 0x06, 0x00, 0x00, 0x00]) 4
     = Some (lv1Deflated @ [0x78, 0x01, 0x90, 0x06])
   \<and> inflate recordedPako (lv1Deflated @ [0x78, 0x01, 0x90, 0x06]) = ReturnsUndefined
   \<and> gatedCandidate (lv1Deflated @ [0x78, 0x01, 0x90, 0x06, 0x06, 0x00, 0x00, 0x00]) 8
     = Some lv1Deflated
   \<and> inflate recordedPako lv1Deflated = ReturnsBytes lv1Bytes
   \<and> acceptedInflation recordedPako
        (lv1Deflated @ [0x78, 0x01, 0x90, 0x06, 0x06, 0x00, 0x00, 0x00]) 4 = None
   \<and> acceptedInflation recordedPako
        (lv1Deflated @ [0x78, 0x01, 0x90, 0x06, 0x06, 0x00, 0x00, 0x00]) 8 = Some lv1Bytes
   \<and> inflateCalls (decryptSave (testWindow recordedPako)
        [0x78, 0xDA, 0xCB, 0x29, 0xB3, 0x52, 0x30, 0xE4, 0x02, 0x00, 0x06, 0x90, 0x01, 0x78,
         0x78, 0x01, 0x90, 0x06, 0x06, 0x00, 0x00, 0x00,
         0x0A, 0x0A, 0x0A, 0x0A, 0x0A, 0x0A, 0x0A, 0x0A, 0x0A, 0x0A] (js ''76561198012345678''))
     = [lv1Deflated @ [0x78, 0x01, 0x90, 0x06]]
   \<and> outcome (decryptSave (testWindow recordedPako)
        [0x78, 0xDA, 0xCB, 0x29, 0xB3, 0x52, 0x30, 0xE4, 0x02, 0x00, 0x06, 0x90, 0x01, 0x78,
         0x78, 0x01, 0x90, 0x06, 0x06, 0x00, 0x00, 0x00,
         0x0A, 0x0A, 0x0A, 0x0A, 0x0A, 0x0A, 0x0A, 0x0A, 0x0A, 0x0A] (js ''76561198012345678''))
     \<noteq> Inr (js ''lv: 1\<newline>'')"
  using later_candidate_never_tried [OF lv1_window lv1_unpadded lv1_candidates(1) lv1_inflate(1)
      lv1_candidates(2) lv1_inflate(2)]
    lv1_candidates lv1_inflate
  by (simp add: lv1_text)

text \<open>
  C9 says that \<open>decryptSave\<close> throws "Zlib decompress failed. Wrong user ID or file
  format?" only if neither trim has a candidate that starts with \<open>0x78\<close> and inflates.
  It throws that error also when the candidate of trim 4 starts with \<open>0x78\<close> and
  \<open>pako.inflate\<close> returns \<open>undefined\<close> on it, although the candidate of trim 8 starts with
  \<open>0x78\<close> and inflates.
\<close>

theorem decode_throws_though_a_candidate_inflates:
  assumes "userID \<noteq> []" and "CryptoJS win = Some C" and "pako win = Some P"
    and "snd (pkcs7Unpad (decryptBuffer C ciph userID)) = unpadded"
    and "gatedCandidate unpadded 4 = Some cand4" and "inflate P cand4 = ReturnsUndefined"
    and "acceptedInflation P unpadded 8 = Some bytes8"
  shows "outcome (decryptSave win ciph userID)
           = Inl (Error ''Zlib decompress failed. Wrong user ID or file format?'')
       \<and> \<not> (acceptedInflation P unpadded 4 = None \<and> acceptedInflation P unpadded 8 = None)"
proof -
  have "tryTrims P unpadded trimOptions = ([cand4], (None, Some 4))"
    by (simp add: decode_trim_loop assms(5,6))
  then show ?thesis
    by (simp add: decryptSave_outcome [OF assms(1-3)] assms(4,7))
qed

theorem decode_throws_though_a_candidate_inflates_witness:
  "encryptSave (testWindow recordedPako) (js ''lv: 1\<newline>'') (js ''76561198012345678'')
     = Inr \<lparr>blobBytes =
         [0x78, 0xDA, 0xCB, 0x29, 0xB3, 0x52, 0x30, 0xE4, 0x02, 0x00, 0x06, 0x90, 0x01, 0x78,
          0x78, 0x01, 0x90, 0x06, 0x06, 0x00, 0x00, 0x00,
          0x0A, 0x0A, 0x0A, 0x0A, 0x0A, 0x0A, 0x0A, 0x0A, 0x0A, 0x0A],
        blobType = ''application/octet-stream''\<rparr>
   \<and> acceptedInflation recordedPako
        (lv1Deflated @ [0x78, 0x01, 0x90, 0x06, 0x06, 0x00, 0x00, 0x00]) 8 = Some lv1Bytes
   \<and> TextDecoder_decode lv1Bytes = js ''lv: 1\<newline>''
   \<and> outcome (decryptSave (testWindow recordedPako)
        [0x78, 0xDA, 0xCB, 0x29, 0xB3, 0x52, 0x30, 0xE4, 0x02, 0x00, 0x06, 0x90, 0x01, 0x78,
         0x78, 0x01, 0x90, 0x06, 0x06, 0x00, 0x00, 0x00,
         0x0A, 0x0A, 0x0A, 0x0A, 0x0A, 0x0A, 0x0A, 0x0A, 0x0A, 0x0A] (js ''76561198012345678''))
     = Inl (Error ''Zlib decompress failed. Wrong user ID or file format?'')"
proof -
  have acc: "acceptedInflation recordedPako
      (lv1Deflated @ [0x78, 0x01, 0x90, 0x06, 0x06, 0x00, 0x00, 0x00]) 8 = Some lv1Bytes"
    by (simp add: acceptedInflation_def lv1_candidates lv1_inflate)
  from decode_throws_though_a_candidate_inflates [OF lv1_window lv1_unpadded lv1_candidates(1)
      lv1_inflate(1) acc] acc lv1_encrypt lv1_text(2)
  show ?thesis by simp
qed

end
